theory Spec2Isabelle
  imports Main "HOL-Library.Word"
begin

unbundle bit_operations_syntax

section \<open>Memory, platform parameters and libc primitives\<close>

text \<open>
  A \<open>char\<close> object is a cell: either a byte or an indeterminate value (\<open>None\<close>), which is
  what an uninitialised array element, a fresh \<open>malloc\<close> block and the inactive members of
  a union hold. A pointer to a buffer is modelled by the cells it points to.
\<close>

type_synonym byte = "8 word"
type_synonym cell = "byte option"

datatype error =
    OutOfBounds         \<comment> \<open>a copy or comparison runs past the end of a buffer\<close>
  | IndeterminateRead   \<comment> \<open>the value of an indeterminate cell is used\<close>
  | BadPointer          \<comment> \<open>\<open>data_long_\<close> is followed while it holds no heap block\<close>
  | CheckFailed         \<comment> \<open>\<open>CHECK_NE(nullptr, ...)\<close> aborts the process\<close>

text \<open>
  The header \<open>quic_connection_id.h\<close>, the flag registry and the endianness of the host are
  not part of the translated file; what the code takes from them is a parameter.
  The two \<open>static_assert\<close>s on \<open>kQuicMaxConnectionIdLength\<close> are \<open>platform_ok\<close>.
\<close>

record platform =
  kQuicMaxConnectionIdLength :: nat
  sizeof_data_short :: nat                       \<comment> \<open>\<open>sizeof(data_short_)\<close>\<close>
  quic_use_allocated_connection_ids :: bool      \<comment> \<open>the restart flag: \<open>True\<close> is the Hybrid strategy\<close>
  little_endian :: bool                          \<comment> \<open>byte order of the host\<close>

definition platform_ok :: "platform \<Rightarrow> bool" where
  "platform_ok p \<longleftrightarrow>
     kQuicMaxConnectionIdLength p \<le> 255 \<and> kQuicMaxConnectionIdLength p \<le> 24"

text \<open>\<open>static_assert(kQuicDefaultConnectionIdLength == sizeof(uint64_t))\<close> fixes this one.\<close>

definition kQuicDefaultConnectionIdLength :: byte where
  "kQuicDefaultConnectionIdLength = 8"

definition memcpy :: "cell list \<Rightarrow> cell list \<Rightarrow> nat \<Rightarrow> error + cell list" where
  "memcpy dst src n =
     (if n \<le> length dst \<and> n \<le> length src then Inr (take n src @ drop n dst)
      else Inl OutOfBounds)"

text \<open>
  \<open>malloc\<close> and \<open>realloc\<close>: the first argument says whether the allocator satisfies the
  request; \<open>None\<close> is the null pointer. New memory is indeterminate.
\<close>

definition malloc :: "bool \<Rightarrow> nat \<Rightarrow> cell list option" where
  "malloc ok n = (if ok then Some (replicate n None) else None)"

definition realloc :: "bool \<Rightarrow> cell list \<Rightarrow> nat \<Rightarrow> cell list option" where
  "realloc ok blk n =
     (if ok then Some (take n blk @ replicate (n - length blk) None) else None)"

fun compare_bytes :: "byte list \<Rightarrow> byte list \<Rightarrow> int" where
  "compare_bytes (a # as) (b # bs) =
     (if a < b then - 1 else if b < a then 1 else compare_bytes as bs)"
| "compare_bytes _ _ = 0"

definition memcmp :: "cell list \<Rightarrow> cell list \<Rightarrow> nat \<Rightarrow> error + int" where
  "memcmp s1 s2 n =
     (if n \<le> length s1 \<and> n \<le> length s2 then
        (case (those (take n s1), those (take n s2)) of
           (Some a, Some b) \<Rightarrow> Inr (compare_bytes a b)
         | _ \<Rightarrow> Inl IndeterminateRead)
      else Inl OutOfBounds)"

section \<open>The connection ID object\<close>

text \<open>
  The union of \<open>data_\<close>, \<open>data_short_\<close> and \<open>data_long_\<close> holds the member written last.
  Reading an array member that is not the one written last yields indeterminate cells,
  following \<open>data_long_\<close> then is an error.
\<close>

datatype storage =
    Unwritten
  | In_data "cell list"
  | In_data_short "cell list"
  | In_data_long "cell list"   \<comment> \<open>the heap block \<open>data_long_\<close> points to\<close>

text \<open>The field \<open>length_\<close> is \<open>length_field\<close>: a name cannot end in an underscore here.\<close>

record QuicConnectionId =
  length_field :: "8 word"
  storage :: storage

definition read_data :: "platform \<Rightarrow> storage \<Rightarrow> cell list" where
  "read_data p s =
     (case s of In_data cs \<Rightarrow> cs | _ \<Rightarrow> replicate (kQuicMaxConnectionIdLength p) None)"

definition read_data_short :: "platform \<Rightarrow> storage \<Rightarrow> cell list" where
  "read_data_short p s =
     (case s of In_data_short cs \<Rightarrow> cs | _ \<Rightarrow> replicate (sizeof_data_short p) None)"

definition read_data_long :: "storage \<Rightarrow> error + cell list" where
  "read_data_long s = (case s of In_data_long blk \<Rightarrow> Inr blk | _ \<Rightarrow> Inl BadPointer)"

text \<open>
  Modelled from the spec: \<open>QUIC_BUG\<close> (\<open>quic_bug_tracker.h\<close> is not among the sources)
  emits a diagnostic and is not fatal. The diagnostic of the constructor carries the
  length that was asked for.
\<close>

datatype diagnostic = QUIC_BUG_create_length "8 word"

text \<open>
  \<open>QuicConnectionId(const char* data, uint8_t length)\<close>. The result carries the
  diagnostics written on the way.
\<close>

definition QuicConnectionId ::
  "platform \<Rightarrow> bool \<Rightarrow> cell list \<Rightarrow> 8 word \<Rightarrow> error + (QuicConnectionId \<times> diagnostic list)" where
  "QuicConnectionId p alloc data len =
     (let (len, log) =
            (if unat len > kQuicMaxConnectionIdLength p
             then (of_nat (kQuicMaxConnectionIdLength p), [QUIC_BUG_create_length len])
             else (len, []))
      in if len = 0 then Inr (\<lparr>length_field = len, storage = Unwritten\<rparr>, log)
         else if \<not> quic_use_allocated_connection_ids p then
           (case memcpy (read_data p Unwritten) data (unat len) of
              Inl e \<Rightarrow> Inl e
            | Inr buf \<Rightarrow> Inr (\<lparr>length_field = len, storage = In_data buf\<rparr>, log))
         else if unat len \<le> sizeof_data_short p then
           (case memcpy (read_data_short p Unwritten) data (unat len) of
              Inl e \<Rightarrow> Inl e
            | Inr buf \<Rightarrow> Inr (\<lparr>length_field = len, storage = In_data_short buf\<rparr>, log))
         else
           (case malloc alloc (unat len) of
              None \<Rightarrow> Inl CheckFailed
            | Some blk \<Rightarrow>
                (case memcpy blk data (unat len) of
                   Inl e \<Rightarrow> Inl e
                 | Inr blk' \<Rightarrow> Inr (\<lparr>length_field = len, storage = In_data_long blk'\<rparr>, log))))"

text \<open>\<open>QuicConnectionId()\<close> delegates to \<open>QuicConnectionId(nullptr, 0)\<close>.\<close>

definition QuicConnectionId_default ::
  "platform \<Rightarrow> bool \<Rightarrow> error + (QuicConnectionId \<times> diagnostic list)" where
  "QuicConnectionId_default p alloc = QuicConnectionId p alloc [] 0"

definition data :: "platform \<Rightarrow> QuicConnectionId \<Rightarrow> error + cell list" where
  "data p x =
     (if \<not> quic_use_allocated_connection_ids p then Inr (read_data p (storage x))
      else if unat (length_field x) \<le> sizeof_data_short p then Inr (read_data_short p (storage x))
      else read_data_long (storage x))"

definition mutable_data :: "platform \<Rightarrow> QuicConnectionId \<Rightarrow> error + cell list" where
  "mutable_data p x =
     (if \<not> quic_use_allocated_connection_ids p then Inr (read_data p (storage x))
      else if unat (length_field x) \<le> sizeof_data_short p then Inr (read_data_short p (storage x))
      else read_data_long (storage x))"

text \<open>Writing through the pointer \<open>mutable_data()\<close> returned: the member it selects is replaced.\<close>

definition write_mutable_data :: "platform \<Rightarrow> QuicConnectionId \<Rightarrow> cell list \<Rightarrow> QuicConnectionId" where
  "write_mutable_data p x buf =
     (if \<not> quic_use_allocated_connection_ids p then x\<lparr>storage := In_data buf\<rparr>
      else if unat (length_field x) \<le> sizeof_data_short p then x\<lparr>storage := In_data_short buf\<rparr>
      else x\<lparr>storage := In_data_long buf\<rparr>)"

definition length_id :: "QuicConnectionId \<Rightarrow> 8 word" where
  "length_id x = length_field x"

text \<open>\<open>QuicConnectionId(const QuicConnectionId& other)\<close>\<close>

definition QuicConnectionId_copy ::
  "platform \<Rightarrow> bool \<Rightarrow> QuicConnectionId \<Rightarrow> error + (QuicConnectionId \<times> diagnostic list)" where
  "QuicConnectionId_copy p alloc other =
     (case data p other of
        Inl e \<Rightarrow> Inl e
      | Inr buf \<Rightarrow> QuicConnectionId p alloc buf (length_id other))"

definition set_length :: "platform \<Rightarrow> bool \<Rightarrow> QuicConnectionId \<Rightarrow> 8 word \<Rightarrow> error + QuicConnectionId" where
  "set_length p alloc x len =
     (if quic_use_allocated_connection_ids p then
        (if unat len > sizeof_data_short p then
           (if unat (length_field x) \<le> sizeof_data_short p then
              (case memcpy (replicate (sizeof_data_short p) None) (read_data_short p (storage x))
                      (unat (length_field x)) of
                 Inl e \<Rightarrow> Inl e
               | Inr temporary_data \<Rightarrow>
                   (case malloc alloc (unat len) of
                      None \<Rightarrow> Inl CheckFailed
                    | Some blk \<Rightarrow>
                        (case memcpy blk temporary_data (unat (length_field x)) of
                           Inl e \<Rightarrow> Inl e
                         | Inr blk' \<Rightarrow> Inr \<lparr>length_field = len, storage = In_data_long blk'\<rparr>)))
            else
              (case read_data_long (storage x) of
                 Inl e \<Rightarrow> Inl e
               | Inr blk \<Rightarrow>
                   (case realloc alloc blk (unat len) of
                      None \<Rightarrow> Inl CheckFailed
                    | Some realloc_result \<Rightarrow>
                        Inr \<lparr>length_field = len, storage = In_data_long realloc_result\<rparr>)))
         else if unat (length_field x) > sizeof_data_short p then
           (case read_data_long (storage x) of
              Inl e \<Rightarrow> Inl e
            | Inr blk \<Rightarrow>
                (case memcpy (replicate (sizeof_data_short p) None) blk (unat len) of
                   Inl e \<Rightarrow> Inl e
                 | Inr temporary_data \<Rightarrow>
                     (case memcpy (read_data_short p Unwritten) temporary_data (unat len) of
                        Inl e \<Rightarrow> Inl e
                      | Inr buf \<Rightarrow> Inr \<lparr>length_field = len, storage = In_data_short buf\<rparr>)))
         else Inr (x\<lparr>length_field := len\<rparr>))
      else Inr (x\<lparr>length_field := len\<rparr>))"

text \<open>\<open>operator=\<close>: \<open>set_length(other.length())\<close>, then \<open>memcpy\<close> to \<open>mutable_data()\<close>.\<close>

definition assign ::
  "platform \<Rightarrow> bool \<Rightarrow> QuicConnectionId \<Rightarrow> QuicConnectionId \<Rightarrow> error + QuicConnectionId" where
  "assign p alloc x other =
     (case set_length p alloc x (length_id other) of
        Inl e \<Rightarrow> Inl e
      | Inr x' \<Rightarrow>
          (case mutable_data p x' of
             Inl e \<Rightarrow> Inl e
           | Inr dst \<Rightarrow>
               (case data p other of
                  Inl e \<Rightarrow> Inl e
                | Inr src \<Rightarrow>
                    (case memcpy dst src (unat (length_field x')) of
                       Inl e \<Rightarrow> Inl e
                     | Inr buf \<Rightarrow> Inr (write_mutable_data p x' buf)))))"

definition IsEmpty :: "QuicConnectionId \<Rightarrow> bool" where
  "IsEmpty x \<longleftrightarrow> length_field x = 0"

section \<open>Hashing, rendering and comparison\<close>

text \<open>
  A \<open>uint64_t\<close> object read from, or written to, eight bytes of memory: most significant
  byte first on a big-endian host, last on a little-endian one.
\<close>

definition load64_be :: "byte list \<Rightarrow> 64 word" where
  "load64_be bs = foldl (\<lambda>acc b. push_bit 8 acc OR ucast b) 0 bs"

definition store64_be :: "64 word \<Rightarrow> byte list" where
  "store64_be w = map (\<lambda>i. ucast (drop_bit (8 * i) w)) [7, 6, 5, 4, 3, 2, 1, 0]"

definition load64 :: "bool \<Rightarrow> byte list \<Rightarrow> 64 word" where
  "load64 le bs = (if le then load64_be (rev bs) else load64_be bs)"

definition ByteSwap :: "64 word \<Rightarrow> 64 word" where
  "ByteSwap w = load64_be (rev (store64_be w))"

text \<open>
  Modelled from the spec: \<open>QuicEndian::NetToHost64\<close> (\<open>quic_endian.h\<close> is not among the
  sources) takes a 64-bit value in big-endian (network) order to host order: it swaps the
  bytes on a little-endian host and is the identity on a big-endian one.
\<close>

definition NetToHost64 :: "platform \<Rightarrow> 64 word \<Rightarrow> 64 word" where
  "NetToHost64 p w = (if little_endian p then ByteSwap w else w)"

text \<open>
  \<open>Hash\<close>: \<open>data_bytes\<close> is 24 zero bytes, \<open>length_\<close> bytes of \<open>data()\<close> are copied over
  them and the three \<open>uint64_t\<close> are read back. \<open>size_t\<close> is taken to be 64 bits wide.
\<close>

definition Hash :: "platform \<Rightarrow> QuicConnectionId \<Rightarrow> error + 64 word" where
  "Hash p x =
     (case data p x of
        Inl e \<Rightarrow> Inl e
      | Inr src \<Rightarrow>
          (case memcpy (replicate 24 (Some 0)) src (unat (length_field x)) of
             Inl e \<Rightarrow> Inl e
           | Inr cells \<Rightarrow>
               (case those cells of
                  None \<Rightarrow> Inl IndeterminateRead
                | Some data_bytes \<Rightarrow>
                    Inr (NetToHost64 p
                          (ucast (kQuicDefaultConnectionIdLength XOR length_field x)
                           XOR load64 (little_endian p) (take 8 data_bytes)
                           XOR load64 (little_endian p) (take 8 (drop 8 data_bytes))
                           XOR load64 (little_endian p) (take 8 (drop 16 data_bytes)))))))"

text \<open>
  Modelled from the spec: \<open>QuicTextUtils::HexEncode\<close> (\<open>quic_text_utils.h\<close> is not among
  the sources) renders each byte as two lowercase hexadecimal digits, without separators.
\<close>

definition lowercase_hex_digits :: string where
  "lowercase_hex_digits = ''0123456789abcdef''"

definition hex_digit :: "nat \<Rightarrow> char" where
  "hex_digit n = lowercase_hex_digits ! (n mod 16)"

definition hex_byte :: "byte \<Rightarrow> string" where
  "hex_byte b = [hex_digit (unat b div 16), hex_digit (unat b mod 16)]"

definition lowercase_hex :: "byte list \<Rightarrow> string" where
  "lowercase_hex bs = concat (map hex_byte bs)"

definition HexEncode :: "cell list \<Rightarrow> nat \<Rightarrow> error + string" where
  "HexEncode src n =
     (if n \<le> length src then
        (case those (take n src) of
           None \<Rightarrow> Inl IndeterminateRead
         | Some bs \<Rightarrow> Inr (lowercase_hex bs))
      else Inl OutOfBounds)"

definition ToString :: "platform \<Rightarrow> QuicConnectionId \<Rightarrow> error + string" where
  "ToString p x =
     (if IsEmpty x then Inr ''0''
      else (case data p x of
              Inl e \<Rightarrow> Inl e
            | Inr src \<Rightarrow> HexEncode src (unat (length_field x))))"

text \<open>\<open>operator==\<close>; \<open>&&\<close> does not evaluate its right operand when the lengths differ.\<close>

definition operator_eq :: "platform \<Rightarrow> QuicConnectionId \<Rightarrow> QuicConnectionId \<Rightarrow> error + bool" where
  "operator_eq p x v =
     (if length_field x = length_field v then
        (case data p x of
           Inl e \<Rightarrow> Inl e
         | Inr a \<Rightarrow>
             (case data p v of
                Inl e \<Rightarrow> Inl e
              | Inr b \<Rightarrow>
                  (case memcmp a b (unat (length_field x)) of
                     Inl e \<Rightarrow> Inl e
                   | Inr r \<Rightarrow> Inr (r = 0))))
      else Inr False)"

text \<open>\<open>operator!=\<close> is \<open>!(v == *this)\<close>, with the operands exchanged.\<close>

definition operator_ne :: "platform \<Rightarrow> QuicConnectionId \<Rightarrow> QuicConnectionId \<Rightarrow> error + bool" where
  "operator_ne p x v =
     (case operator_eq p v x of Inl e \<Rightarrow> Inl e | Inr r \<Rightarrow> Inr (\<not> r))"

definition operator_less :: "platform \<Rightarrow> QuicConnectionId \<Rightarrow> QuicConnectionId \<Rightarrow> error + bool" where
  "operator_less p x v =
     (if length_field x < length_field v then Inr True
      else if length_field x > length_field v then Inr False
      else (case data p x of
              Inl e \<Rightarrow> Inl e
            | Inr a \<Rightarrow>
                (case data p v of
                   Inl e \<Rightarrow> Inl e
                 | Inr b \<Rightarrow>
                     (case memcmp a b (unat (length_field x)) of
                        Inl e \<Rightarrow> Inl e
                      | Inr r \<Rightarrow> Inr (r < 0)))))"

section \<open>The abstract view of an identifier\<close>

text \<open>
  What the data model of the specification calls the bytes of an identifier: the first
  \<open>length()\<close> cells behind \<open>data()\<close>, when they are within the buffer and all hold a value.
\<close>

definition contents :: "platform \<Rightarrow> QuicConnectionId \<Rightarrow> byte list option" where
  "contents p x =
     (case data p x of
        Inl e \<Rightarrow> None
      | Inr buf \<Rightarrow>
          (if unat (length_field x) \<le> length buf
           then those (take (unat (length_field x)) buf) else None))"

text \<open>The number of cells of the buffer that holds an identifier of \<open>n\<close> bytes.\<close>

definition capacity :: "platform \<Rightarrow> nat \<Rightarrow> nat" where
  "capacity p n =
     (if \<not> quic_use_allocated_connection_ids p then kQuicMaxConnectionIdLength p
      else if n \<le> sizeof_data_short p then sizeof_data_short p
      else n)"

text \<open>
  \<open>well_sized\<close>: the length is at most the maximum and \<open>data()\<close> is a buffer of the size
  the strategy gives it. \<open>valid\<close>: moreover every byte of the identifier has a value.
\<close>

definition well_sized :: "platform \<Rightarrow> QuicConnectionId \<Rightarrow> bool" where
  "well_sized p x \<longleftrightarrow>
     unat (length_field x) \<le> kQuicMaxConnectionIdLength p \<and>
     (case data p x of
        Inl e \<Rightarrow> False
      | Inr buf \<Rightarrow> length buf = capacity p (unat (length_field x)))"

definition valid :: "platform \<Rightarrow> QuicConnectionId \<Rightarrow> bool" where
  "valid p x \<longleftrightarrow> well_sized p x \<and> contents p x \<noteq> None"

text \<open>
  The hash in the words of the specification: the bytes, padded with zeros to 24, are three
  64-bit words; these are combined by exclusive or with the length and with the default
  length, and the result is taken from big-endian to host order.
\<close>

definition zero_pad :: "byte list \<Rightarrow> byte list" where
  "zero_pad bs = bs @ replicate (24 - length bs) 0"

definition hash_formula :: "platform \<Rightarrow> 8 word \<Rightarrow> byte list \<Rightarrow> 64 word" where
  "hash_formula p len bs =
     (let buffer = zero_pad bs;
          word0 = load64 (little_endian p) (take 8 buffer);
          word1 = load64 (little_endian p) (take 8 (drop 8 buffer));
          word2 = load64 (little_endian p) (take 8 (drop 16 buffer))
      in NetToHost64 p
           (word0 XOR word1 XOR word2 XOR ucast len XOR ucast kQuicDefaultConnectionIdLength))"

text \<open>
  Reading a rendering back: the value of a digit is its place among the sixteen digits, and
  two digits make a byte, the high half first.
\<close>

definition hex_value :: "char \<Rightarrow> nat" where
  "hex_value c = length (takeWhile (\<lambda>d. d \<noteq> c) lowercase_hex_digits)"

fun decode_hex :: "string \<Rightarrow> byte list" where
  "decode_hex (a # b # cs) = of_nat (16 * hex_value a + hex_value b) # decode_hex cs"
| "decode_hex _ = []"

text \<open>
  Platforms to evaluate on, with a maximum of 20 bytes and 8 bytes of inline storage:
  a little-endian host under either strategy, and a big-endian host.
\<close>

definition legacy_platform :: platform where
  "legacy_platform =
     \<lparr>kQuicMaxConnectionIdLength = 20, sizeof_data_short = 8,
      quic_use_allocated_connection_ids = False, little_endian = True\<rparr>"

definition hybrid_platform :: platform where
  "hybrid_platform =
     \<lparr>kQuicMaxConnectionIdLength = 20, sizeof_data_short = 8,
      quic_use_allocated_connection_ids = True, little_endian = True\<rparr>"

definition big_endian_platform :: platform where
  "big_endian_platform =
     \<lparr>kQuicMaxConnectionIdLength = 20, sizeof_data_short = 8,
      quic_use_allocated_connection_ids = True, little_endian = False\<rparr>"

text \<open>Identifiers to evaluate on: one per storage mode.\<close>

definition bytes_1_to_8 :: "byte list" where
  "bytes_1_to_8 = [1, 2, 3, 4, 5, 6, 7, 8]"

definition bytes_1_to_12 :: "byte list" where
  "bytes_1_to_12 = [1, 2, 3, 4, 5, 6, 7, 8, 9, 10, 11, 12]"

definition inline_id :: QuicConnectionId where
  "inline_id = \<lparr>length_field = 8, storage = In_data_short (map Some bytes_1_to_8)\<rparr>"

definition heap_id :: QuicConnectionId where
  "heap_id = \<lparr>length_field = 12, storage = In_data_long (map Some bytes_1_to_12)\<rparr>"

definition legacy_id :: QuicConnectionId where
  "legacy_id =
     \<lparr>length_field = 12, storage = In_data (map Some bytes_1_to_12 @ replicate 8 None)\<rparr>"

definition empty_id :: QuicConnectionId where
  "empty_id = \<lparr>length_field = 0, storage = Unwritten\<rparr>"

text \<open>Identifiers of three and of five bytes, and one whose unused cells hold values.\<close>

definition short_ff :: QuicConnectionId where
  "short_ff = \<lparr>length_field = 3, storage = In_data_short (map Some [255, 255, 255] @ replicate 5 None)\<rparr>"

definition long_00 :: QuicConnectionId where
  "long_00 = \<lparr>length_field = 5, storage = In_data_short (map Some [0, 0, 0, 0, 0] @ replicate 3 None)\<rparr>"

definition long_80 :: QuicConnectionId where
  "long_80 = \<lparr>length_field = 5, storage = In_data_short (map Some [0, 128, 0, 0, 0] @ replicate 3 None)\<rparr>"

definition legacy_id_padded :: QuicConnectionId where
  "legacy_id_padded =
     \<lparr>length_field = 12, storage = In_data (map Some bytes_1_to_12 @ replicate 8 (Some 0))\<rparr>"

section \<open>Auxiliary facts\<close>

subsection \<open>Cells and bytes\<close>

lemma those_map_Some: "those (map Some bs) = Some bs"
  by (induction bs) auto

lemma those_eq_Some: "those xs = Some bs \<longleftrightarrow> xs = map Some bs"
  by (induction xs arbitrary: bs) (auto split: option.splits)

lemma compare_bytes_eq_0: "length as = length bs \<Longrightarrow> compare_bytes as bs = 0 \<longleftrightarrow> as = bs"
  by (induction as bs rule: list_induct2) auto

lemma compare_bytes_less_0:
  "length as = length bs \<Longrightarrow> compare_bytes as bs < 0 \<longleftrightarrow> (as, bs) \<in> lexord {(u, v). u < v}"
  by (induction as bs rule: list_induct2) auto

lemma compare_bytes_swap:
  "length as = length bs \<Longrightarrow> compare_bytes bs as < 0 \<longleftrightarrow> compare_bytes as bs > 0"
  by (induction as bs rule: list_induct2) auto

subsection \<open>Byte order\<close>

lemma store_load: "length cs = 8 \<Longrightarrow> store64_be (load64_be cs) = cs"
proof -
  assume "length cs = 8"
  then obtain a b c d e f g h where cs: "cs = [a, b, c, d, e, f, g, h]"
    by (auto simp: length_Suc_conv eval_nat_numeral)
  show ?thesis
    unfolding cs store64_be_def load64_be_def
    apply simp
    apply (intro conjI; rule bit_word_eqI)
           apply (auto simp: bit_simps dest: bit_imp_le_length)
    done
qed

lemma load64_be_zero: "load64_be (replicate n 0) = 0"
proof -
  have "foldl (\<lambda>acc b. push_bit 8 acc OR ucast (b::byte)) (0::64 word) (replicate n 0) = 0"
    by (induction n) auto
  then show ?thesis by (simp add: load64_be_def)
qed

lemma load64_zero: "load64 le (replicate n 0) = 0"
  by (simp add: load64_def load64_be_zero)

lemma ByteSwap_load: "length cs = 8 \<Longrightarrow> ByteSwap (load64_be cs) = load64_be (rev cs)"
  by (simp add: ByteSwap_def store_load)

lemma NetToHost64_load64:
  "length cs = 8 \<Longrightarrow> NetToHost64 p (load64 (little_endian p) cs) = load64_be cs"
  by (simp add: NetToHost64_def load64_def ByteSwap_load)

subsection \<open>Buffers and the abstract view\<close>

lemma unat_of_nat_max:
  "platform_ok p \<Longrightarrow>
   unat (of_nat (kQuicMaxConnectionIdLength p) :: 8 word) = kQuicMaxConnectionIdLength p"
  by (simp add: platform_ok_def unat_of_nat)

lemma capacity_ge: "n \<le> kQuicMaxConnectionIdLength p \<Longrightarrow> n \<le> capacity p n"
  by (simp add: capacity_def)

lemma well_sizedD:
  assumes "well_sized p x"
  obtains buf where "data p x = Inr buf" and "length buf = capacity p (unat (length_field x))"
    and "unat (length_field x) \<le> kQuicMaxConnectionIdLength p"
  using assms by (auto simp: well_sized_def split: sum.splits)

lemma well_sizedI:
  "data p x = Inr buf \<Longrightarrow> length buf = capacity p (unat (length_field x)) \<Longrightarrow>
   unat (length_field x) \<le> kQuicMaxConnectionIdLength p \<Longrightarrow> well_sized p x"
  by (simp add: well_sized_def)

lemma contentsD:
  assumes "contents p x = Some bs"
  obtains buf where "data p x = Inr buf" and "unat (length_field x) \<le> length buf"
    and "take (unat (length_field x)) buf = map Some bs" and "length bs = unat (length_field x)"
proof -
  from assms obtain buf where d: "data p x = Inr buf" and le: "unat (length_field x) \<le> length buf"
    and t: "those (take (unat (length_field x)) buf) = Some bs"
    by (auto simp: contents_def split: sum.splits if_splits)
  from t have m: "take (unat (length_field x)) buf = map Some bs" by (simp add: those_eq_Some)
  then have "length (take (unat (length_field x)) buf) = length bs" by simp
  with le have "length bs = unat (length_field x)" by simp
  with d le m show ?thesis by (rule that)
qed

lemma contents_of_data:
  "data p y = Inr buf \<Longrightarrow> unat (length_field y) \<le> length buf \<Longrightarrow>
   contents p y = those (take (unat (length_field y)) buf)"
  by (simp add: contents_def)

lemma constructed_view:
  assumes d: "data p y = Inr (take n src @ replicate (capacity p n - n) None)"
    and n: "unat (length_field y) = n" "n \<le> kQuicMaxConnectionIdLength p" "n \<le> length src"
  shows "well_sized p y" and "contents p y = those (take n src)"
proof -
  have c: "n \<le> capacity p n" using n(2) by (rule capacity_ge)
  show "well_sized p y"
    using d n c by (intro well_sizedI[OF d]) simp_all
  show "contents p y = those (take n src)"
    using n c by (simp add: contents_of_data[OF d])
qed

subsection \<open>Construction\<close>

lemma construct_unclamped:
  assumes "unat len \<le> kQuicMaxConnectionIdLength p" and "unat len \<le> length src"
  shows "\<exists>y. QuicConnectionId p True src len = Inr (y, []) \<and> length_field y = len \<and>
             data p y = Inr (take (unat len) src @ replicate (capacity p (unat len) - unat len) None)"
proof (cases "len = 0")
  case True
  then show ?thesis
    by (simp add: QuicConnectionId_def data_def read_data_def read_data_short_def capacity_def)
next
  case False
  with assms show ?thesis
    by (simp add: QuicConnectionId_def data_def read_data_def read_data_short_def read_data_long_def
        capacity_def memcpy_def malloc_def)
qed

lemma construct_clamped:
  assumes "platform_ok p" and "unat len > kQuicMaxConnectionIdLength p"
    and "kQuicMaxConnectionIdLength p \<le> length src"
  shows "\<exists>y. QuicConnectionId p True src len = Inr (y, [QUIC_BUG_create_length len]) \<and>
             length_field y = of_nat (kQuicMaxConnectionIdLength p) \<and>
             data p y = Inr (take (kQuicMaxConnectionIdLength p) src @
                             replicate (capacity p (kQuicMaxConnectionIdLength p) -
                                        kQuicMaxConnectionIdLength p) None)"
proof (cases "kQuicMaxConnectionIdLength p = 0")
  case True
  with assms show ?thesis
    by (simp add: QuicConnectionId_def data_def read_data_def read_data_short_def capacity_def)
next
  case False
  have u: "unat (of_nat (kQuicMaxConnectionIdLength p) :: 8 word) = kQuicMaxConnectionIdLength p"
    using assms(1) by (rule unat_of_nat_max)
  have nz: "(of_nat (kQuicMaxConnectionIdLength p) :: 8 word) \<noteq> 0"
    using u False by (metis unat_0)
  from assms u nz show ?thesis
    by (simp add: QuicConnectionId_def data_def read_data_def read_data_short_def read_data_long_def
        capacity_def memcpy_def malloc_def)
qed

lemma copy_ok:
  assumes ws: "well_sized p x"
  shows "\<exists>y. QuicConnectionId_copy p True x = Inr (y, []) \<and> length_field y = length_field x \<and>
             contents p y = contents p x \<and> well_sized p y"
proof -
  let ?n = "unat (length_field x)"
  from ws obtain buf where d: "data p x = Inr buf" and lb: "length buf = capacity p ?n"
    and L: "?n \<le> kQuicMaxConnectionIdLength p" by (rule well_sizedD)
  have le: "?n \<le> length buf" using lb capacity_ge[OF L] by simp
  from construct_unclamped[OF L le] obtain y where
    y: "QuicConnectionId p True buf (length_field x) = Inr (y, [])" "length_field y = length_field x"
       "data p y = Inr (take ?n buf @ replicate (capacity p ?n - ?n) None)" by blast
  have "well_sized p y" and "contents p y = those (take ?n buf)"
    using constructed_view[OF y(3) _ L le] y(2) by simp_all
  moreover have "contents p x = those (take ?n buf)" using d le by (rule contents_of_data)
  moreover have "QuicConnectionId_copy p True x = Inr (y, [])"
    using d y(1) by (simp add: QuicConnectionId_copy_def length_id_def)
  ultimately show ?thesis using y(2) by simp
qed

subsection \<open>Changing the length\<close>

lemma set_length_cells:
  assumes ws: "well_sized p x" and L2: "unat L2 \<le> kQuicMaxConnectionIdLength p"
  shows "\<exists>x' buf buf'. set_length p True x L2 = Inr x' \<and> length_field x' = L2 \<and>
           data p x = Inr buf \<and> data p x' = Inr buf' \<and>
           take (min (unat (length_field x)) (unat L2)) buf' =
           take (min (unat (length_field x)) (unat L2)) buf \<and>
           well_sized p x'"
proof -
  from ws obtain buf where d: "data p x = Inr buf"
    and lb: "length buf = capacity p (unat (length_field x))"
    and L1: "unat (length_field x) \<le> kQuicMaxConnectionIdLength p"
    by (rule well_sizedD)
  let ?c = "sizeof_data_short p"
  let ?m = "min (unat (length_field x)) (unat L2)"
  consider (legacy) "\<not> quic_use_allocated_connection_ids p"
    | (inline_inline) "quic_use_allocated_connection_ids p" "unat (length_field x) \<le> ?c" "unat L2 \<le> ?c"
    | (inline_heap) "quic_use_allocated_connection_ids p" "unat (length_field x) \<le> ?c" "unat L2 > ?c"
    | (heap_heap) "quic_use_allocated_connection_ids p" "unat (length_field x) > ?c" "unat L2 > ?c"
    | (heap_inline) "quic_use_allocated_connection_ids p" "unat (length_field x) > ?c" "unat L2 \<le> ?c"
    by linarith
  then show ?thesis
  proof cases
    case legacy
    let ?x' = "x\<lparr>length_field := L2\<rparr>"
    have s: "set_length p True x L2 = Inr ?x'" using legacy by (simp add: set_length_def)
    have d': "data p ?x' = Inr buf" using legacy d by (simp add: data_def)
    have "well_sized p ?x'"
      using d' lb L2 legacy by (intro well_sizedI[where buf=buf]) (simp_all add: capacity_def)
    with s d d' show ?thesis by simp
  next
    case inline_inline
    let ?x' = "x\<lparr>length_field := L2\<rparr>"
    have s: "set_length p True x L2 = Inr ?x'" using inline_inline by (simp add: set_length_def)
    have d': "data p ?x' = Inr buf" using inline_inline d by (simp add: data_def)
    have "well_sized p ?x'"
      using d' lb L2 inline_inline by (intro well_sizedI[where buf=buf]) (simp_all add: capacity_def)
    with s d d' show ?thesis by simp
  next
    case inline_heap
    have b: "buf = read_data_short p (storage x)" and lc: "length buf = ?c"
      using inline_heap d lb by (simp_all add: data_def capacity_def)
    let ?blk = "take (unat (length_field x)) buf @ replicate (unat L2 - unat (length_field x)) None"
    let ?x' = "\<lparr>length_field = L2, storage = In_data_long ?blk\<rparr>"
    have s: "set_length p True x L2 = Inr ?x'"
      using inline_heap lc by (simp add: set_length_def memcpy_def malloc_def b[symmetric])
    have d': "data p ?x' = Inr ?blk" using inline_heap by (simp add: data_def read_data_long_def)
    have "well_sized p ?x'"
      using d' L2 inline_heap lc by (intro well_sizedI[where buf="?blk"]) (simp_all add: capacity_def)
    moreover have "take ?m ?blk = take ?m buf" using inline_heap lc by (simp add: min_def)
    ultimately show ?thesis using s d d' by simp
  next
    case heap_heap
    have b: "read_data_long (storage x) = Inr buf" and lc: "length buf = unat (length_field x)"
      using heap_heap d lb by (simp_all add: data_def capacity_def)
    let ?blk = "take (unat L2) buf @ replicate (unat L2 - length buf) None"
    let ?x' = "\<lparr>length_field = L2, storage = In_data_long ?blk\<rparr>"
    have s: "set_length p True x L2 = Inr ?x'"
      using heap_heap b by (simp add: set_length_def realloc_def)
    have d': "data p ?x' = Inr ?blk" using heap_heap by (simp add: data_def read_data_long_def)
    have "well_sized p ?x'"
      using d' L2 heap_heap lc by (intro well_sizedI[where buf="?blk"]) (simp_all add: capacity_def)
    moreover have "take ?m ?blk = take ?m buf" using lc by (simp add: min_def)
    ultimately show ?thesis using s d d' by simp
  next
    case heap_inline
    have b: "read_data_long (storage x) = Inr buf" and lc: "length buf = unat (length_field x)"
      using heap_inline d lb by (simp_all add: data_def capacity_def)
    let ?short = "take (unat L2) buf @ replicate (?c - unat L2) None"
    let ?x' = "\<lparr>length_field = L2, storage = In_data_short ?short\<rparr>"
    have s: "set_length p True x L2 = Inr ?x'"
      using heap_inline b lc by (simp add: set_length_def memcpy_def read_data_short_def)
    have d': "data p ?x' = Inr ?short" using heap_inline by (simp add: data_def read_data_short_def)
    have "well_sized p ?x'"
      using d' L2 heap_inline lc by (intro well_sizedI[where buf="?short"]) (simp_all add: capacity_def)
    moreover have "take ?m ?short = take ?m buf" using heap_inline lc by (simp add: min_def)
    ultimately show ?thesis using s d d' by simp
  qed
qed

lemma set_length_legacy:
  "\<not> quic_use_allocated_connection_ids p \<Longrightarrow> set_length p alloc x len = Inr (x\<lparr>length_field := len\<rparr>)"
  by (simp add: set_length_def)

subsection \<open>Comparison\<close>

lemma memcmp_contents:
  assumes "contents p x = Some as" and "contents p v = Some bs"
    and "length_field x = length_field v"
  shows "\<exists>a b. data p x = Inr a \<and> data p v = Inr b \<and>
               memcmp a b (unat (length_field x)) = Inr (compare_bytes as bs)"
proof -
  from assms(1) obtain a where a: "data p x = Inr a" "unat (length_field x) \<le> length a"
    "take (unat (length_field x)) a = map Some as" by (rule contentsD)
  from assms(2) obtain b where b: "data p v = Inr b" "unat (length_field v) \<le> length b"
    "take (unat (length_field v)) b = map Some bs" by (rule contentsD)
  have "memcmp a b (unat (length_field x)) = Inr (compare_bytes as bs)"
    using a b assms(3) by (simp add: memcmp_def those_map_Some)
  with a(1) b(1) show ?thesis by blast
qed

lemma contents_same_length:
  assumes "contents p x = Some as" and "contents p v = Some bs"
    and "length_field x = length_field v"
  shows "length as = length bs"
  using assms by (metis contentsD)

lemma operator_eq_compare:
  assumes "contents p x = Some as" and "contents p v = Some bs"
  shows "operator_eq p x v = Inr (length_field x = length_field v \<and> compare_bytes as bs = 0)"
proof (cases "length_field x = length_field v")
  case True
  from memcmp_contents[OF assms True] obtain a b where
    "data p x = Inr a" "data p v = Inr b"
    "memcmp a b (unat (length_field x)) = Inr (compare_bytes as bs)"
    by blast
  with True show ?thesis by (simp add: operator_eq_def)
next
  case False
  then show ?thesis by (simp add: operator_eq_def)
qed

lemma operator_less_compare:
  assumes "contents p x = Some as" and "contents p v = Some bs"
  shows "operator_less p x v =
         Inr (unat (length_field x) < unat (length_field v) \<or>
              (length_field x = length_field v \<and> compare_bytes as bs < 0))"
proof (cases "length_field x = length_field v")
  case True
  from memcmp_contents[OF assms True] obtain a b where
    "data p x = Inr a" "data p v = Inr b"
    "memcmp a b (unat (length_field x)) = Inr (compare_bytes as bs)"
    by blast
  with True show ?thesis by (simp add: operator_less_def)
next
  case False
  then consider "length_field x < length_field v" | "length_field v < length_field x"
    by (meson linorder_neqE)
  then show ?thesis
  proof cases
    case 1
    then show ?thesis by (simp add: operator_less_def word_less_nat_alt)
  next
    case 2
    then have "\<not> length_field x < length_field v" by simp
    with 2 False show ?thesis by (simp add: operator_less_def word_less_nat_alt)
  qed
qed

lemma operator_eq_contents:
  assumes "contents p x = Some as" and "contents p v = Some bs"
  shows "operator_eq p x v = Inr (length_field x = length_field v \<and> as = bs)"
proof (cases "length_field x = length_field v")
  case True
  with assms have "length as = length bs" by (rule contents_same_length)
  then show ?thesis
    using True operator_eq_compare[OF assms] by (simp add: compare_bytes_eq_0)
next
  case False
  then show ?thesis by (simp add: operator_eq_def)
qed

lemma operator_less_contents:
  assumes "contents p x = Some as" and "contents p v = Some bs"
  shows "operator_less p x v =
         Inr (unat (length_field x) < unat (length_field v) \<or>
              (length_field x = length_field v \<and> (as, bs) \<in> lexord {(u, v). u < v}))"
proof (cases "length_field x = length_field v")
  case True
  with assms have "length as = length bs" by (rule contents_same_length)
  then show ?thesis
    using True operator_less_compare[OF assms] by (simp add: compare_bytes_less_0)
next
  case False
  then show ?thesis using operator_less_compare[OF assms] by simp
qed

subsection \<open>Hashing and rendering\<close>

lemma Hash_contents:
  assumes c: "contents p x = Some bs" and n: "unat (length_field x) \<le> 24"
  shows "Hash p x = Inr (hash_formula p (length_field x) bs)"
proof -
  from c obtain buf where d: "data p x = Inr buf" and le: "unat (length_field x) \<le> length buf"
    and t: "take (unat (length_field x)) buf = map Some bs" and lb: "length bs = unat (length_field x)"
    by (rule contentsD)
  have "memcpy (replicate 24 (Some 0)) buf (unat (length_field x)) =
        Inr (map Some bs @ replicate (24 - length bs) (Some 0))"
    using le n t lb by (simp add: memcpy_def)
  also have "map Some bs @ replicate (24 - length bs) (Some 0) = map Some (zero_pad bs)"
    by (simp add: zero_pad_def map_replicate)
  finally have m: "memcpy (replicate 24 (Some 0)) buf (unat (length_field x)) =
                   Inr (map Some (zero_pad bs))" .
  have x: "(ucast (kQuicDefaultConnectionIdLength XOR length_field x) :: 64 word) =
           ucast (length_field x) XOR ucast kQuicDefaultConnectionIdLength"
    by (simp add: unsigned_xor_eq xor.commute)
  show ?thesis
    unfolding Hash_def hash_formula_def Let_def
    by (simp add: d m those_map_Some x ac_simps del: take_map drop_map)
qed

lemma hash_formula_default_length:
  assumes "length bs = 8"
  shows "hash_formula p 8 bs = load64_be bs"
proof -
  have "zero_pad bs = bs @ replicate 16 0" using assms by (simp add: zero_pad_def)
  then show ?thesis
    using assms
    by (simp add: hash_formula_def kQuicDefaultConnectionIdLength_def load64_zero NetToHost64_load64)
qed

lemma length_lowercase_hex_digits: "length lowercase_hex_digits = 16"
  by (simp add: lowercase_hex_digits_def)

lemma hex_digit_in: "hex_digit n \<in> set lowercase_hex_digits"
  unfolding hex_digit_def by (rule nth_mem) (simp add: length_lowercase_hex_digits)

lemma length_lowercase_hex: "length (lowercase_hex bs) = 2 * length bs"
  by (induction bs) (simp_all add: lowercase_hex_def hex_byte_def)

lemma set_lowercase_hex: "set (lowercase_hex bs) \<subseteq> set lowercase_hex_digits"
proof -
  have "set (hex_byte b) \<subseteq> set lowercase_hex_digits" for b
    using hex_digit_in[of "unat b div 16"] hex_digit_in[of "unat b mod 16"]
    by (simp add: hex_byte_def)
  then show ?thesis by (auto simp: lowercase_hex_def)
qed

lemma hex_value_digits:
  "list_all (\<lambda>k. hex_value (lowercase_hex_digits ! k) = k) [0..<16]"
  by code_simp

lemma hex_value_hex_digit: "hex_value (hex_digit n) = n mod 16"
proof -
  have "n mod 16 \<in> set [0..<16]" by simp
  with hex_value_digits show ?thesis
    unfolding hex_digit_def list_all_iff by blast
qed

lemma decode_hex_byte: "decode_hex (hex_byte b @ cs) = b # decode_hex cs"
proof -
  have "unat b < 256" using unsigned_less[of b, where ?'a = nat] by simp
  then have "(unat b div 16) mod 16 = unat b div 16" by simp
  then have "16 * hex_value (hex_digit (unat b div 16)) + hex_value (hex_digit (unat b mod 16)) = unat b"
    by (simp add: hex_value_hex_digit)
  then show ?thesis by (simp add: hex_byte_def)
qed

lemma decode_lowercase_hex: "decode_hex (lowercase_hex bs) = bs"
proof (induction bs)
  case Nil
  show ?case by (simp add: lowercase_hex_def)
next
  case (Cons b bs)
  have "lowercase_hex (b # bs) = hex_byte b @ lowercase_hex bs" by (simp add: lowercase_hex_def)
  with Cons show ?case by (simp add: decode_hex_byte)
qed

lemma ToString_contents:
  assumes "contents p x = Some bs"
  shows "ToString p x = Inr (if length_field x = 0 then ''0'' else lowercase_hex bs)"
proof -
  from assms obtain buf where "data p x = Inr buf" and "unat (length_field x) \<le> length buf"
    and "take (unat (length_field x)) buf = map Some bs"
    by (rule contentsD)
  then show ?thesis
    by (simp add: ToString_def IsEmpty_def HexEncode_def those_map_Some)
qed

subsection \<open>Further facts on hashing and ordering\<close>

lemma well_sized_le_24:
  "platform_ok p \<Longrightarrow> well_sized p x \<Longrightarrow> unat (length_field x) \<le> 24"
  by (auto simp: platform_ok_def elim: well_sizedD)

lemma hash_formula_same_byte_order:
  "little_endian q = little_endian p \<Longrightarrow> hash_formula q len bs = hash_formula p len bs"
  by (simp add: hash_formula_def NetToHost64_def)

lemma trans_byte_less: "trans {(u :: byte, v). u < v}"
  by (auto simp: trans_def)

lemma operator_less_shorter:
  "unat (length_field x) < unat (length_field v) \<Longrightarrow> operator_less p x v = Inr True"
  by (simp add: operator_less_def word_less_nat_alt)

lemma less_pred_trans:
  assumes "n1 < n2 \<or> (l1 = l2 \<and> (a, b) \<in> lexord {(u :: byte, v). u < v})"
    and "n2 < n3 \<or> (l2 = l3 \<and> (b, c) \<in> lexord {(u :: byte, v). u < v})"
    and "l1 = l2 \<Longrightarrow> n1 = n2" and "l2 = l3 \<Longrightarrow> n2 = (n3 :: nat)"
  shows "n1 < n3 \<or> (l1 = l3 \<and> (a, c) \<in> lexord {(u :: byte, v). u < v})"
  using assms lexord_trans[OF _ _ trans_byte_less, of a b c] by auto

section \<open>Construction\<close>

text \<open>
  C6. For every byte sequence \<open>b\<close> of at most \<open>kQuicMaxConnectionIdLength\<close> bytes, the
  constructor called with \<open>b\<close> and the length of \<open>b\<close> returns, without a diagnostic, an
  identifier whose \<open>length()\<close> is the length of \<open>b\<close> and whose \<open>data()\<close> shows exactly
  the bytes of \<open>b\<close>. This holds for every platform, so under the Legacy strategy and under
  the Hybrid one, inline and on the heap; the allocator is one that satisfies the request.
\<close>

theorem construct_roundtrip:
  assumes "platform_ok p" and "length b \<le> kQuicMaxConnectionIdLength p"
  shows "\<exists>y buf. QuicConnectionId p True (map Some b) (of_nat (length b)) = Inr (y, []) \<and>
           unat (length_id y) = length b \<and>
           data p y = Inr buf \<and> take (unat (length_id y)) buf = map Some b \<and>
           contents p y = Some b \<and> valid p y"
proof -
  let ?len = "of_nat (length b) :: 8 word"
  have u: "unat ?len = length b"
    using assms by (simp add: platform_ok_def unat_of_nat)
  have 1: "unat ?len \<le> kQuicMaxConnectionIdLength p" and 2: "unat ?len \<le> length (map Some b)"
    using assms(2) u by simp_all
  from construct_unclamped[OF 1 2] obtain y where
    y: "QuicConnectionId p True (map Some b) ?len = Inr (y, [])" "length_field y = ?len"
       "data p y = Inr (take (unat ?len) (map Some b) @
                        replicate (capacity p (unat ?len) - unat ?len) None)"
    by blast
  have n: "unat (length_field y) = unat ?len" using y(2) by simp
  have ws: "well_sized p y" and c: "contents p y = those (take (unat ?len) (map Some b))"
    using constructed_view[OF y(3) n 1 2] by simp_all
  have c': "contents p y = Some b" using c u by (simp add: those_map_Some)
  have "valid p y" using ws c' by (simp add: valid_def)
  with y c' u show ?thesis by (simp add: length_id_def)
qed

text \<open>
  The theorem at twelve bytes under the Hybrid strategy, which go to the heap, and the
  identifiers that the constructor builds under either strategy.
\<close>

theorem construct_roundtrip_witness:
  "platform_ok hybrid_platform \<and> length bytes_1_to_12 \<le> kQuicMaxConnectionIdLength hybrid_platform \<and>
   (\<exists>y buf. QuicConnectionId hybrid_platform True (map Some bytes_1_to_12) (of_nat (length bytes_1_to_12)) = Inr (y, []) \<and>
           unat (length_id y) = length bytes_1_to_12 \<and>
           data hybrid_platform y = Inr buf \<and> take (unat (length_id y)) buf = map Some bytes_1_to_12 \<and>
           contents hybrid_platform y = Some bytes_1_to_12 \<and> valid hybrid_platform y) \<and>
   QuicConnectionId hybrid_platform True (map Some bytes_1_to_12) 12 = Inr (heap_id, []) \<and>
   QuicConnectionId legacy_platform True (map Some bytes_1_to_12) 12 = Inr (legacy_id, []) \<and>
   QuicConnectionId hybrid_platform True (map Some bytes_1_to_8) 8 = Inr (inline_id, [])"
proof -
  have h1: "platform_ok hybrid_platform" by code_simp
  have h2: "length bytes_1_to_12 \<le> kQuicMaxConnectionIdLength hybrid_platform" by code_simp
  have e1: "QuicConnectionId hybrid_platform True (map Some bytes_1_to_12) 12 = Inr (heap_id, [])" by code_simp
  have e2: "QuicConnectionId legacy_platform True (map Some bytes_1_to_12) 12 = Inr (legacy_id, [])" by code_simp
  have e3: "QuicConnectionId hybrid_platform True (map Some bytes_1_to_8) 8 = Inr (inline_id, [])" by code_simp
  show ?thesis using construct_roundtrip[OF h1 h2] h1 h2 e1 e2 e3 by blast
qed

text \<open>
  C7. For every request whose length is above \<open>kQuicMaxConnectionIdLength\<close>, on a buffer
  that holds at least that many bytes, the constructor returns an identifier and no error:
  it writes one diagnostic, the identifier's \<open>length()\<close> is the maximum, and \<open>data()\<close>
  holds the first \<open>kQuicMaxConnectionIdLength\<close> bytes of the buffer and nothing else of it.
\<close>

theorem construct_oversize_clamped:
  assumes "platform_ok p" and "unat len > kQuicMaxConnectionIdLength p"
    and "kQuicMaxConnectionIdLength p \<le> length src"
  shows "\<exists>y. QuicConnectionId p True src len = Inr (y, [QUIC_BUG_create_length len]) \<and>
           unat (length_id y) = kQuicMaxConnectionIdLength p \<and>
           data p y = Inr (take (kQuicMaxConnectionIdLength p) src @
                           replicate (capacity p (kQuicMaxConnectionIdLength p) -
                                      kQuicMaxConnectionIdLength p) None) \<and>
           contents p y = those (take (kQuicMaxConnectionIdLength p) src) \<and>
           well_sized p y"
proof -
  let ?M = "kQuicMaxConnectionIdLength p"
  from construct_clamped[OF assms] obtain y where
    y: "QuicConnectionId p True src len = Inr (y, [QUIC_BUG_create_length len])"
       "length_field y = of_nat ?M"
       "data p y = Inr (take ?M src @ replicate (capacity p ?M - ?M) None)"
    by blast
  have n: "unat (length_field y) = ?M" using y(2) unat_of_nat_max[OF assms(1)] by simp
  have "well_sized p y" and "contents p y = those (take ?M src)"
    using constructed_view[OF y(3) n _ assms(3)] by simp_all
  with y n show ?thesis by (simp add: length_id_def)
qed

text \<open>A request of 25 bytes where the maximum is 20, under both strategies.\<close>

theorem construct_oversize_clamped_witness:
  "platform_ok hybrid_platform \<and>
   unat (25 :: 8 word) > kQuicMaxConnectionIdLength hybrid_platform \<and>
   kQuicMaxConnectionIdLength hybrid_platform \<le> length (replicate 25 (Some (7 :: byte))) \<and>
   (\<exists>y. QuicConnectionId hybrid_platform True (replicate 25 (Some 7)) 25 = Inr (y, [QUIC_BUG_create_length 25]) \<and>
        unat (length_id y) = kQuicMaxConnectionIdLength hybrid_platform \<and>
        data hybrid_platform y =
          Inr (take (kQuicMaxConnectionIdLength hybrid_platform) (replicate 25 (Some 7)) @
               replicate (capacity hybrid_platform (kQuicMaxConnectionIdLength hybrid_platform) -
                          kQuicMaxConnectionIdLength hybrid_platform) None) \<and>
        contents hybrid_platform y =
          those (take (kQuicMaxConnectionIdLength hybrid_platform) (replicate 25 (Some 7))) \<and>
        well_sized hybrid_platform y) \<and>
   QuicConnectionId hybrid_platform True (replicate 25 (Some 7)) 25 =
     Inr (\<lparr>length_field = 20, storage = In_data_long (replicate 20 (Some 7))\<rparr>,
          [QUIC_BUG_create_length 25]) \<and>
   QuicConnectionId legacy_platform True (replicate 25 (Some 7)) 25 =
     Inr (\<lparr>length_field = 20, storage = In_data (replicate 20 (Some 7))\<rparr>,
          [QUIC_BUG_create_length 25])"
proof -
  have h1: "platform_ok hybrid_platform" by code_simp
  have h2: "unat (25 :: 8 word) > kQuicMaxConnectionIdLength hybrid_platform" by code_simp
  have h3: "kQuicMaxConnectionIdLength hybrid_platform \<le> length (replicate 25 (Some (7 :: byte)))"
    by code_simp
  have e1: "QuicConnectionId hybrid_platform True (replicate 25 (Some 7)) 25 =
     Inr (\<lparr>length_field = 20, storage = In_data_long (replicate 20 (Some 7))\<rparr>,
          [QUIC_BUG_create_length 25])" by code_simp
  have e2: "QuicConnectionId legacy_platform True (replicate 25 (Some 7)) 25 =
     Inr (\<lparr>length_field = 20, storage = In_data (replicate 20 (Some 7))\<rparr>,
          [QUIC_BUG_create_length 25])" by code_simp
  show ?thesis using construct_oversize_clamped[OF h1 h2 h3] h1 h2 h3 e1 e2 by blast
qed

section \<open>Changing the length\<close>

text \<open>
  C1. Let \<open>x\<close> be an identifier of length \<open>L1\<close> and bytes \<open>B1\<close>, and \<open>L2\<close> at most the
  maximum. Then \<open>set_length(L2)\<close> returns, \<open>length()\<close> is \<open>L2\<close>, \<open>data()\<close> is a buffer of
  at least \<open>L2\<close> cells and its first \<open>min L1 L2\<close> cells are the first \<open>min L1 L2\<close> bytes of
  \<open>B1\<close>. The platform is arbitrary: the statement covers the Legacy strategy and the four
  transitions of the Hybrid one, and under the Legacy strategy the storage is left as it is.
\<close>

theorem set_length_preserves_prefix:
  assumes "well_sized p x" and "contents p x = Some B1"
    and "unat L2 \<le> kQuicMaxConnectionIdLength p"
  shows "\<exists>x' buf'. set_length p True x L2 = Inr x' \<and> length_id x' = L2 \<and>
           data p x' = Inr buf' \<and> unat L2 \<le> length buf' \<and>
           take (min (unat (length_id x)) (unat L2)) buf' =
           map Some (take (min (unat (length_id x)) (unat L2)) B1) \<and>
           well_sized p x' \<and>
           (\<not> quic_use_allocated_connection_ids p \<longrightarrow> storage x' = storage x)"
proof -
  let ?m = "min (unat (length_field x)) (unat L2)"
  from set_length_cells[OF assms(1,3)] obtain x' buf buf' where
    s: "set_length p True x L2 = Inr x'" "length_field x' = L2" "data p x = Inr buf"
       "data p x' = Inr buf'" "take ?m buf' = take ?m buf" "well_sized p x'"
    by blast
  from assms(2) s(3) have t: "take (unat (length_field x)) buf = map Some B1"
    by (auto elim: contentsD)
  have "take ?m buf = take ?m (take (unat (length_field x)) buf)" by simp
  also have "\<dots> = map Some (take ?m B1)" by (simp only: t take_map)
  finally have p: "take ?m buf' = map Some (take ?m B1)" using s(5) by simp
  from s(6) s(4) s(2) have "unat L2 \<le> length buf'"
    using capacity_ge[OF assms(3)] by (auto elim: well_sizedD)
  moreover have "storage x' = storage x" if "\<not> quic_use_allocated_connection_ids p"
    using s(1) set_length_legacy[OF that, of True x L2] by auto
  ultimately show ?thesis using s p by (auto simp: length_id_def)
qed

text \<open>
  One instance per case: inline to inline, inline to heap, heap to heap and heap to inline
  under the Hybrid strategy, and the Legacy strategy.
\<close>

theorem set_length_preserves_prefix_witness:
  "well_sized hybrid_platform inline_id \<and>
   contents hybrid_platform inline_id = Some bytes_1_to_8 \<and>
   unat (5 :: 8 word) \<le> kQuicMaxConnectionIdLength hybrid_platform \<and>
   (\<exists>x' buf'. set_length hybrid_platform True inline_id (5 :: 8 word) = Inr x' \<and> length_id x' = (5 :: 8 word) \<and>
        data hybrid_platform x' = Inr buf' \<and> unat (5 :: 8 word) \<le> length buf' \<and>
        take (min (unat (length_id inline_id)) (unat (5 :: 8 word))) buf' =
        map Some (take (min (unat (length_id inline_id)) (unat (5 :: 8 word))) bytes_1_to_8) \<and>
        well_sized hybrid_platform x') \<and>
   unat (12 :: 8 word) \<le> kQuicMaxConnectionIdLength hybrid_platform \<and>
   (\<exists>x' buf'. set_length hybrid_platform True inline_id (12 :: 8 word) = Inr x' \<and> length_id x' = (12 :: 8 word) \<and>
        data hybrid_platform x' = Inr buf' \<and> unat (12 :: 8 word) \<le> length buf' \<and>
        take (min (unat (length_id inline_id)) (unat (12 :: 8 word))) buf' =
        map Some (take (min (unat (length_id inline_id)) (unat (12 :: 8 word))) bytes_1_to_8) \<and>
        well_sized hybrid_platform x') \<and>
   well_sized hybrid_platform heap_id \<and>
   contents hybrid_platform heap_id = Some bytes_1_to_12 \<and>
   unat (15 :: 8 word) \<le> kQuicMaxConnectionIdLength hybrid_platform \<and>
   (\<exists>x' buf'. set_length hybrid_platform True heap_id (15 :: 8 word) = Inr x' \<and> length_id x' = (15 :: 8 word) \<and>
        data hybrid_platform x' = Inr buf' \<and> unat (15 :: 8 word) \<le> length buf' \<and>
        take (min (unat (length_id heap_id)) (unat (15 :: 8 word))) buf' =
        map Some (take (min (unat (length_id heap_id)) (unat (15 :: 8 word))) bytes_1_to_12) \<and>
        well_sized hybrid_platform x') \<and>
   (\<exists>x' buf'. set_length hybrid_platform True heap_id (5 :: 8 word) = Inr x' \<and> length_id x' = (5 :: 8 word) \<and>
        data hybrid_platform x' = Inr buf' \<and> unat (5 :: 8 word) \<le> length buf' \<and>
        take (min (unat (length_id heap_id)) (unat (5 :: 8 word))) buf' =
        map Some (take (min (unat (length_id heap_id)) (unat (5 :: 8 word))) bytes_1_to_12) \<and>
        well_sized hybrid_platform x') \<and>
   well_sized legacy_platform legacy_id \<and>
   contents legacy_platform legacy_id = Some bytes_1_to_12 \<and>
   unat (5 :: 8 word) \<le> kQuicMaxConnectionIdLength legacy_platform \<and>
   (\<exists>x' buf'. set_length legacy_platform True legacy_id (5 :: 8 word) = Inr x' \<and> length_id x' = (5 :: 8 word) \<and>
        data legacy_platform x' = Inr buf' \<and> unat (5 :: 8 word) \<le> length buf' \<and>
        take (min (unat (length_id legacy_id)) (unat (5 :: 8 word))) buf' =
        map Some (take (min (unat (length_id legacy_id)) (unat (5 :: 8 word))) bytes_1_to_12) \<and>
        well_sized legacy_platform x' \<and>
        storage x' = storage legacy_id) \<and>
   set_length hybrid_platform True inline_id 12 =
     Inr \<lparr>length_field = 12, storage = In_data_long (map Some bytes_1_to_8 @ replicate 4 None)\<rparr> \<and>
   set_length hybrid_platform True heap_id 5 =
     Inr \<lparr>length_field = 5, storage = In_data_short (map Some [1, 2, 3, 4, 5] @ replicate 3 None)\<rparr>"
proof -
  have h1: "well_sized hybrid_platform inline_id" by code_simp
  have h2: "contents hybrid_platform inline_id = Some bytes_1_to_8" by code_simp
  have h3: "unat (5 :: 8 word) \<le> kQuicMaxConnectionIdLength hybrid_platform" by code_simp
  have h4: "unat (12 :: 8 word) \<le> kQuicMaxConnectionIdLength hybrid_platform" by code_simp
  have h5: "well_sized hybrid_platform heap_id" by code_simp
  have h6: "contents hybrid_platform heap_id = Some bytes_1_to_12" by code_simp
  have h7: "unat (15 :: 8 word) \<le> kQuicMaxConnectionIdLength hybrid_platform" by code_simp
  have h8: "well_sized legacy_platform legacy_id" by code_simp
  have h9: "contents legacy_platform legacy_id = Some bytes_1_to_12" by code_simp
  have h10: "unat (5 :: 8 word) \<le> kQuicMaxConnectionIdLength legacy_platform" by code_simp
  have e1: "set_length hybrid_platform True inline_id 12 =
     Inr \<lparr>length_field = 12, storage = In_data_long (map Some bytes_1_to_8 @ replicate 4 None)\<rparr>" by code_simp
  have e2: "set_length hybrid_platform True heap_id 5 =
     Inr \<lparr>length_field = 5, storage = In_data_short (map Some [1, 2, 3, 4, 5] @ replicate 3 None)\<rparr>" by code_simp
  have e3: "\<not> quic_use_allocated_connection_ids legacy_platform" by code_simp
  show ?thesis
    using set_length_preserves_prefix[OF h1 h2 h3]
      set_length_preserves_prefix[OF h1 h2 h4]
      set_length_preserves_prefix[OF h5 h6 h7]
      set_length_preserves_prefix[OF h5 h6 h3]
      set_length_preserves_prefix[OF h8 h9 h10]
      h1 h2 h3 h4 h5 h6 h7 h8 h9 h10 e1 e2 e3
    by blast
qed

section \<open>The bound on the length\<close>

text \<open>
  The constructor never returns a length above the maximum, and assignment takes over the
  length of its argument. \<open>set_length\<close> stores its argument as it is.
\<close>

lemma set_length_sets_length:
  "set_length p alloc x len = Inr x' \<Longrightarrow> length_field x' = len"
  unfolding set_length_def
  by (auto split: if_splits sum.splits option.splits)

lemma constructor_length_le_max:
  assumes "platform_ok p" and "QuicConnectionId p alloc src len = Inr (y, log)"
  shows "unat (length_field y) \<le> kQuicMaxConnectionIdLength p"
proof (cases "unat len > kQuicMaxConnectionIdLength p")
  case True
  with assms(2) have "length_field y = of_nat (kQuicMaxConnectionIdLength p)"
    unfolding QuicConnectionId_def by (auto split: if_splits sum.splits option.splits)
  then show ?thesis using unat_of_nat_max[OF assms(1)] by simp
next
  case False
  with assms(2) have "length_field y = len"
    unfolding QuicConnectionId_def by (auto split: if_splits sum.splits option.splits)
  with False show ?thesis by simp
qed

lemma assign_length:
  "assign p alloc x other = Inr x' \<Longrightarrow> length_field x' = length_field other"
  unfolding assign_def write_mutable_data_def length_id_def
  by (auto split: if_splits sum.splits dest: set_length_sets_length)

text \<open>
  C2 states that \<open>length()\<close> never exceeds \<open>kQuicMaxConnectionIdLength\<close> after any sequence
  of public operations, \<open>set_length\<close> with any argument among them. The code does not keep
  this: on a default-constructed identifier, \<open>set_length(25)\<close> leaves \<open>length()\<close> at 25
  where the maximum is 20, under both strategies. Under the Legacy strategy \<open>Hash\<close> then
  copies 25 bytes out of \<open>data_\<close> into the 24 bytes of \<open>data_bytes\<close>, which its
  \<open>static_assert\<close> is there to exclude.
\<close>

theorem set_length_exceeds_maximum:
  "QuicConnectionId_default legacy_platform True = Inr (empty_id, []) \<and>
   set_length legacy_platform True empty_id 25 = Inr \<lparr>length_field = 25, storage = Unwritten\<rparr> \<and>
   kQuicMaxConnectionIdLength legacy_platform <
     unat (length_id \<lparr>length_field = 25, storage = Unwritten\<rparr>) \<and>
   Hash legacy_platform \<lparr>length_field = 25, storage = Unwritten\<rparr> = Inl OutOfBounds \<and>
   QuicConnectionId_default hybrid_platform True = Inr (empty_id, []) \<and>
   set_length hybrid_platform True empty_id 25 =
     Inr \<lparr>length_field = 25, storage = In_data_long (replicate 25 None)\<rparr> \<and>
   kQuicMaxConnectionIdLength hybrid_platform <
     unat (length_id \<lparr>length_field = 25, storage = In_data_long (replicate 25 None)\<rparr>)"
  by code_simp

section \<open>Hashing\<close>

text \<open>
  C3. For every identifier, \<open>Hash\<close> is the formula of the specification: the bytes padded
  with zeros to three 64-bit words, combined by exclusive or with the length and the
  default length, and taken from big-endian to host order. For an identifier of the
  default length, eight bytes, this is the big-endian value of its bytes; for the bytes
  \<open>0x01\<close> to \<open>0x08\<close> it is \<open>0x0102030405060708\<close> on either byte order.
\<close>

theorem Hash_equals_formula:
  assumes "platform_ok p" and "well_sized p x" and "contents p x = Some bs"
  shows "Hash p x = Inr (hash_formula p (length_id x) bs) \<and>
         (length_id x = kQuicDefaultConnectionIdLength \<longrightarrow> Hash p x = Inr (load64_be bs))"
proof -
  have n: "unat (length_field x) \<le> 24" using assms(1,2) by (rule well_sized_le_24)
  have h: "Hash p x = Inr (hash_formula p (length_field x) bs)"
    using assms(3) n by (rule Hash_contents)
  have "hash_formula p (length_field x) bs = load64_be bs"
    if "length_field x = kQuicDefaultConnectionIdLength"
  proof -
    from that have 8: "length_field x = 8" by (simp add: kQuicDefaultConnectionIdLength_def)
    with assms(3) have "length bs = 8" by (auto elim: contentsD)
    with 8 show ?thesis by (simp add: hash_formula_default_length)
  qed
  with h show ?thesis by (simp add: length_id_def)
qed

text \<open>
  The identifier constructed from the bytes \<open>0x01\<close> to \<open>0x08\<close>, on a little-endian and on
  a big-endian host, and an identifier of twelve bytes.
\<close>

theorem Hash_equals_formula_witness:
  "platform_ok hybrid_platform \<and> well_sized hybrid_platform inline_id \<and>
   contents hybrid_platform inline_id = Some bytes_1_to_8 \<and>
   Hash hybrid_platform inline_id = Inr (hash_formula hybrid_platform (length_id inline_id) bytes_1_to_8) \<and>
   length_id inline_id = kQuicDefaultConnectionIdLength \<and>
   Hash hybrid_platform inline_id = Inr (load64_be bytes_1_to_8) \<and>
   QuicConnectionId hybrid_platform True (map Some bytes_1_to_8) 8 = Inr (inline_id, []) \<and>
   load64_be bytes_1_to_8 = 0x0102030405060708 \<and>
   Hash hybrid_platform inline_id = Inr 0x0102030405060708 \<and>
   Hash big_endian_platform inline_id = Inr 0x0102030405060708 \<and>
   Hash hybrid_platform heap_id = Inr 0x0C08080805060708"
proof -
  have h1: "platform_ok hybrid_platform" by code_simp
  have h2: "well_sized hybrid_platform inline_id" by code_simp
  have h3: "contents hybrid_platform inline_id = Some bytes_1_to_8" by code_simp
  have e1: "length_id inline_id = kQuicDefaultConnectionIdLength" by code_simp
  have e2: "QuicConnectionId hybrid_platform True (map Some bytes_1_to_8) 8 = Inr (inline_id, [])"
    by code_simp
  have e3: "load64_be bytes_1_to_8 = 0x0102030405060708" by code_simp
  have e4: "Hash hybrid_platform inline_id = Inr 0x0102030405060708" by code_simp
  have e5: "Hash big_endian_platform inline_id = Inr 0x0102030405060708" by code_simp
  have e6: "Hash hybrid_platform heap_id = Inr 0x0C08080805060708" by code_simp
  show ?thesis using Hash_equals_formula[OF h1 h2 h3] h1 h2 h3 e1 e2 e3 e4 e5 e6 by blast
qed

text \<open>
  C9. The copy of an identifier has the hash of the identifier, and two identifiers with
  the same length and bytes have the same hash whatever the strategy each was made under,
  on hosts of the same byte order: the hash depends on the length and the bytes only.
\<close>

theorem Hash_stable:
  assumes "platform_ok p" and "well_sized p x" and "contents p x = Some bs"
    and "platform_ok q" and "well_sized q x'" and "contents q x' = Some bs"
    and "length_id x' = length_id x" and "little_endian q = little_endian p"
  shows "(\<exists>y h. QuicConnectionId_copy p True x = Inr (y, []) \<and> Hash p y = Inr h \<and> Hash p x = Inr h) \<and>
         Hash q x' = Hash p x"
proof -
  have hx: "Hash p x = Inr (hash_formula p (length_field x) bs)"
    using assms(3) well_sized_le_24[OF assms(1,2)] by (rule Hash_contents)
  from copy_ok[OF assms(2)] obtain y where
    y: "QuicConnectionId_copy p True x = Inr (y, [])" "length_field y = length_field x"
       "contents p y = contents p x" "well_sized p y"
    by blast
  have "Hash p y = Inr (hash_formula p (length_field y) bs)"
    using y(3) assms(3) well_sized_le_24[OF assms(1) y(4)] by (intro Hash_contents) simp_all
  with y(2) have hy: "Hash p y = Inr (hash_formula p (length_field x) bs)" by simp
  have "Hash q x' = Inr (hash_formula q (length_field x') bs)"
    using assms(6) well_sized_le_24[OF assms(4,5)] by (rule Hash_contents)
  also have "hash_formula q (length_field x') bs = hash_formula p (length_field x') bs"
    using assms(8) by (rule hash_formula_same_byte_order)
  also have "length_field x' = length_field x"
    using assms(7) by (simp add: length_id_def)
  finally have hq: "Hash q x' = Inr (hash_formula p (length_field x) bs)" .
  show ?thesis
  proof (intro conjI exI)
    show "QuicConnectionId_copy p True x = Inr (y, [])" by (rule y(1))
    show "Hash p y = Inr (hash_formula p (length_field x) bs)" by (rule hy)
    show "Hash p x = Inr (hash_formula p (length_field x) bs)" by (rule hx)
    show "Hash q x' = Hash p x" by (simp only: hq hx)
  qed
qed

text \<open>Twelve bytes in the fixed buffer of the Legacy strategy and on the heap of the Hybrid one.\<close>

theorem Hash_stable_witness:
  "platform_ok legacy_platform \<and> well_sized legacy_platform legacy_id \<and>
   contents legacy_platform legacy_id = Some bytes_1_to_12 \<and>
   platform_ok hybrid_platform \<and> well_sized hybrid_platform heap_id \<and>
   contents hybrid_platform heap_id = Some bytes_1_to_12 \<and>
   length_id heap_id = length_id legacy_id \<and>
   little_endian hybrid_platform = little_endian legacy_platform \<and>
   (\<exists>y h. QuicConnectionId_copy legacy_platform True legacy_id = Inr (y, []) \<and>
          Hash legacy_platform y = Inr h \<and> Hash legacy_platform legacy_id = Inr h) \<and>
   Hash hybrid_platform heap_id = Hash legacy_platform legacy_id"
proof -
  have h1: "platform_ok legacy_platform" by code_simp
  have h2: "well_sized legacy_platform legacy_id" by code_simp
  have h3: "contents legacy_platform legacy_id = Some bytes_1_to_12" by code_simp
  have h4: "platform_ok hybrid_platform" by code_simp
  have h5: "well_sized hybrid_platform heap_id" by code_simp
  have h6: "contents hybrid_platform heap_id = Some bytes_1_to_12" by code_simp
  have h7: "length_id heap_id = length_id legacy_id" by code_simp
  have h8: "little_endian hybrid_platform = little_endian legacy_platform" by code_simp
  show ?thesis using Hash_stable[OF h1 h2 h3 h4 h5 h6 h7 h8] h1 h2 h3 h4 h5 h6 h7 h8 by blast
qed

section \<open>Rendering\<close>

text \<open>
  C8. \<open>ToString\<close> returns \<open>"0"\<close> for the empty identifier and otherwise the lowercase
  hexadecimal digits of its \<open>length()\<close> bytes, two per byte and nothing between them, from
  which the bytes are read back; the bytes \<open>0x01\<close> to \<open>0x08\<close> give \<open>"0102030405060708"\<close>.
\<close>

theorem ToString_lowercase_hex:
  assumes "contents p x = Some bs"
  shows "ToString p x = Inr (if IsEmpty x then ''0'' else lowercase_hex bs) \<and>
         (\<not> IsEmpty x \<longrightarrow>
            length (lowercase_hex bs) = 2 * unat (length_id x) \<and>
            set (lowercase_hex bs) \<subseteq> set lowercase_hex_digits \<and>
            decode_hex (lowercase_hex bs) = bs)"
proof -
  from assms have "length bs = unat (length_field x)" by (auto elim: contentsD)
  then show ?thesis
    using ToString_contents[OF assms] set_lowercase_hex[of bs]
    by (simp add: IsEmpty_def length_id_def length_lowercase_hex decode_lowercase_hex)
qed

text \<open>The identifier of the bytes \<open>0x01\<close> to \<open>0x08\<close>, the empty one and one on the heap.\<close>

theorem ToString_lowercase_hex_witness:
  "contents hybrid_platform inline_id = Some bytes_1_to_8 \<and>
   ToString hybrid_platform inline_id =
     Inr (if IsEmpty inline_id then ''0'' else lowercase_hex bytes_1_to_8) \<and>
   \<not> IsEmpty inline_id \<and>
   length (lowercase_hex bytes_1_to_8) = 2 * unat (length_id inline_id) \<and>
   set (lowercase_hex bytes_1_to_8) \<subseteq> set lowercase_hex_digits \<and>
   decode_hex (lowercase_hex bytes_1_to_8) = bytes_1_to_8 \<and>
   ToString hybrid_platform inline_id = Inr ''0102030405060708'' \<and>
   contents legacy_platform empty_id = Some [] \<and>
   IsEmpty empty_id \<and>
   ToString legacy_platform empty_id = Inr (if IsEmpty empty_id then ''0'' else lowercase_hex []) \<and>
   ToString legacy_platform empty_id = Inr ''0'' \<and>
   ToString hybrid_platform heap_id = Inr ''0102030405060708090a0b0c''"
proof -
  have h1: "contents hybrid_platform inline_id = Some bytes_1_to_8" by code_simp
  have h2: "contents legacy_platform empty_id = Some []" by code_simp
  have e1: "\<not> IsEmpty inline_id" by code_simp
  have e2: "IsEmpty empty_id" by code_simp
  have e3: "ToString hybrid_platform inline_id = Inr ''0102030405060708''" by code_simp
  have e4: "ToString legacy_platform empty_id = Inr ''0''" by code_simp
  have e5: "ToString hybrid_platform heap_id = Inr ''0102030405060708090a0b0c''" by code_simp
  show ?thesis
    using ToString_lowercase_hex[OF h1] ToString_lowercase_hex[OF h2] h1 h2 e1 e2 e3 e4 e5
    by blast
qed

section \<open>Equality and order\<close>

text \<open>
  C5. \<open>x == y\<close> holds exactly when the lengths are equal and the bytes are equal. The
  answer is the same for any two identifiers with these lengths and bytes under any
  strategy, and so does not depend on where the bytes are stored; equality is reflexive,
  symmetric and transitive.
\<close>

theorem operator_eq_length_and_bytes:
  assumes "contents p x = Some a" and "contents p y = Some b" and "contents p z = Some c"
    and "contents q x' = Some a" and "contents q y' = Some b"
    and "length_id x' = length_id x" and "length_id y' = length_id y"
  shows "operator_eq p x y = Inr (length_id x = length_id y \<and> a = b) \<and>
         operator_eq p x x = Inr True \<and>
         operator_eq p y x = operator_eq p x y \<and>
         (operator_eq p x y = Inr True \<and> operator_eq p y z = Inr True \<longrightarrow>
            operator_eq p x z = Inr True) \<and>
         operator_eq q x' y' = operator_eq p x y"
proof -
  have xy: "operator_eq p x y = Inr (length_field x = length_field y \<and> a = b)"
    using assms(1,2) by (rule operator_eq_contents)
  have yx: "operator_eq p y x = Inr (length_field y = length_field x \<and> b = a)"
    using assms(2,1) by (rule operator_eq_contents)
  have xx: "operator_eq p x x = Inr (length_field x = length_field x \<and> a = a)"
    using assms(1,1) by (rule operator_eq_contents)
  have yz: "operator_eq p y z = Inr (length_field y = length_field z \<and> b = c)"
    using assms(2,3) by (rule operator_eq_contents)
  have xz: "operator_eq p x z = Inr (length_field x = length_field z \<and> a = c)"
    using assms(1,3) by (rule operator_eq_contents)
  have q: "operator_eq q x' y' = Inr (length_field x' = length_field y' \<and> a = b)"
    using assms(4,5) by (rule operator_eq_contents)
  show ?thesis
    unfolding xy yx xx yz xz q using assms(6,7) by (auto simp: length_id_def)
qed

text \<open>
  Two identifiers in the Legacy buffer that differ in the cells after their bytes only,
  and the same bytes on the heap under the Hybrid strategy.
\<close>

theorem operator_eq_length_and_bytes_witness:
  "contents legacy_platform legacy_id = Some bytes_1_to_12 \<and>
   contents legacy_platform legacy_id_padded = Some bytes_1_to_12 \<and>
   contents hybrid_platform heap_id = Some bytes_1_to_12 \<and>
   length_id heap_id = length_id legacy_id \<and>
   length_id heap_id = length_id legacy_id_padded \<and>
   operator_eq legacy_platform legacy_id legacy_id_padded =
     Inr (length_id legacy_id = length_id legacy_id_padded \<and> bytes_1_to_12 = bytes_1_to_12) \<and>
   operator_eq legacy_platform legacy_id legacy_id = Inr True \<and>
   operator_eq legacy_platform legacy_id_padded legacy_id =
     operator_eq legacy_platform legacy_id legacy_id_padded \<and>
   operator_eq hybrid_platform heap_id heap_id =
     operator_eq legacy_platform legacy_id legacy_id_padded \<and>
   operator_eq legacy_platform legacy_id legacy_id_padded = Inr True \<and>
   operator_eq legacy_platform legacy_id_padded legacy_id = Inr True \<and>
   legacy_id \<noteq> legacy_id_padded"
proof -
  have h1: "contents legacy_platform legacy_id = Some bytes_1_to_12" by code_simp
  have h2: "contents legacy_platform legacy_id_padded = Some bytes_1_to_12" by code_simp
  have h3: "contents hybrid_platform heap_id = Some bytes_1_to_12" by code_simp
  have h4: "length_id heap_id = length_id legacy_id" by code_simp
  have h5: "length_id heap_id = length_id legacy_id_padded" by code_simp
  have e1: "operator_eq legacy_platform legacy_id legacy_id_padded = Inr True" by code_simp
  have e2: "operator_eq legacy_platform legacy_id_padded legacy_id = Inr True" by code_simp
  have e3: "legacy_id \<noteq> legacy_id_padded" by code_simp
  show ?thesis
    using operator_eq_length_and_bytes[OF h1 h2 h1 h3 h3 h4 h5] h1 h2 h3 h4 h5 e1 e2 e3
    by blast
qed

text \<open>
  C4. \<open>x < y\<close> holds exactly when \<open>x\<close> is shorter than \<open>y\<close>, or they have the same length
  and the bytes of \<open>x\<close> come before those of \<open>y\<close> in the lexicographic order of unsigned
  bytes. An identifier of length 3 is less than any identifier of length 5, whatever the
  bytes of either.
\<close>

theorem operator_less_length_then_bytes:
  "(contents p x = Some a \<and> contents p y = Some b \<longrightarrow>
      operator_less p x y =
        Inr (unat (length_id x) < unat (length_id y) \<or>
             (length_id x = length_id y \<and> (a, b) \<in> lexord {(u, v). u < v}))) \<and>
   (unat (length_id x) = 3 \<and> unat (length_id y) = 5 \<longrightarrow> operator_less p x y = Inr True)"
proof (intro conjI impI)
  assume "contents p x = Some a \<and> contents p y = Some b"
  then show "operator_less p x y =
        Inr (unat (length_id x) < unat (length_id y) \<or>
             (length_id x = length_id y \<and> (a, b) \<in> lexord {(u, v). u < v}))"
    using operator_less_contents[of p x a y b] by (simp add: length_id_def)
next
  assume "unat (length_id x) = 3 \<and> unat (length_id y) = 5"
  then have "unat (length_field x) < unat (length_field y)" by (simp add: length_id_def)
  then show "operator_less p x y = Inr True" by (rule operator_less_shorter)
qed

text \<open>
  Three bytes \<open>0xff\<close> against five bytes \<open>0x00\<close>, and two identifiers of five bytes that
  differ in a byte with the top bit set.
\<close>

theorem operator_less_length_then_bytes_witness:
  "contents hybrid_platform short_ff = Some [255, 255, 255] \<and>
   contents hybrid_platform long_00 = Some [0, 0, 0, 0, 0] \<and>
   operator_less hybrid_platform short_ff long_00 =
     Inr (unat (length_id short_ff) < unat (length_id long_00) \<or>
          (length_id short_ff = length_id long_00 \<and>
           ([255, 255, 255], [0, 0, 0, 0, 0]) \<in> lexord {(u :: byte, v). u < v})) \<and>
   unat (length_id short_ff) = 3 \<and> unat (length_id long_00) = 5 \<and>
   operator_less hybrid_platform short_ff long_00 = Inr True \<and>
   operator_less hybrid_platform long_00 short_ff = Inr False \<and>
   contents hybrid_platform long_80 = Some [0, 128, 0, 0, 0] \<and>
   operator_less hybrid_platform long_00 long_80 =
     Inr (unat (length_id long_00) < unat (length_id long_80) \<or>
          (length_id long_00 = length_id long_80 \<and>
           ([0, 0, 0, 0, 0], [0, 128, 0, 0, 0]) \<in> lexord {(u :: byte, v). u < v})) \<and>
   operator_less hybrid_platform long_00 long_80 = Inr True \<and>
   operator_less hybrid_platform long_80 long_00 = Inr False"
proof -
  have h1: "contents hybrid_platform short_ff = Some [255, 255, 255]" by code_simp
  have h2: "contents hybrid_platform long_00 = Some [0, 0, 0, 0, 0]" by code_simp
  have h3: "contents hybrid_platform long_80 = Some [0, 128, 0, 0, 0]" by code_simp
  have e1: "unat (length_id short_ff) = 3" by code_simp
  have e2: "unat (length_id long_00) = 5" by code_simp
  have e4: "operator_less hybrid_platform long_00 short_ff = Inr False" by code_simp
  have e5: "operator_less hybrid_platform long_00 long_80 = Inr True" by code_simp
  have e6: "operator_less hybrid_platform long_80 long_00 = Inr False" by code_simp
  show ?thesis
    using operator_less_length_then_bytes[of hybrid_platform short_ff "[255, 255, 255]" long_00 "[0, 0, 0, 0, 0]"]
      operator_less_length_then_bytes[of hybrid_platform long_00 "[0, 0, 0, 0, 0]" long_80 "[0, 128, 0, 0, 0]"]
      h1 h2 h3 e1 e2 e4 e5 e6
    by blast
qed

text \<open>
  C10. For two identifiers exactly one of \<open>x < y\<close>, \<open>y < x\<close> and \<open>x == y\<close> holds, and
  \<open>x != y\<close> is the negation of \<open>x == y\<close>; \<open><\<close> is irreflexive and transitive, so it is
  a strict total order on lengths and bytes.
\<close>

theorem operator_less_strict_total_order:
  assumes "contents p x = Some a" and "contents p y = Some b" and "contents p z = Some c"
  shows "(\<exists>lt gt eq. operator_less p x y = Inr lt \<and> operator_less p y x = Inr gt \<and>
            operator_eq p x y = Inr eq \<and>
            ((lt \<and> \<not> gt \<and> \<not> eq) \<or> (\<not> lt \<and> gt \<and> \<not> eq) \<or> (\<not> lt \<and> \<not> gt \<and> eq)) \<and>
            operator_ne p x y = Inr (\<not> eq)) \<and>
         operator_less p x x = Inr False \<and>
         (operator_less p x y = Inr True \<and> operator_less p y z = Inr True \<longrightarrow>
            operator_less p x z = Inr True)"
proof -
  let ?lx = "length_field x" and ?ly = "length_field y"
  have lt: "operator_less p x y = Inr (unat ?lx < unat ?ly \<or> (?lx = ?ly \<and> compare_bytes a b < 0))"
    using assms(1,2) by (rule operator_less_compare)
  have gt: "operator_less p y x = Inr (unat ?ly < unat ?lx \<or> (?ly = ?lx \<and> compare_bytes b a < 0))"
    using assms(2,1) by (rule operator_less_compare)
  have eq: "operator_eq p x y = Inr (?lx = ?ly \<and> compare_bytes a b = 0)"
    using assms(1,2) by (rule operator_eq_compare)
  have eq': "operator_eq p y x = Inr (?ly = ?lx \<and> compare_bytes b a = 0)"
    using assms(2,1) by (rule operator_eq_compare)
  have sw: "compare_bytes b a < 0 \<longleftrightarrow> compare_bytes a b > 0"
    and z: "compare_bytes b a = 0 \<longleftrightarrow> compare_bytes a b = 0" if "?lx = ?ly"
  proof -
    from assms(1,2) that have l: "length a = length b" by (rule contents_same_length)
    show "compare_bytes b a < 0 \<longleftrightarrow> compare_bytes a b > 0" using l by (rule compare_bytes_swap)
    show "compare_bytes b a = 0 \<longleftrightarrow> compare_bytes a b = 0"
      using l by (auto simp: compare_bytes_eq_0)
  qed
  have ne: "operator_ne p x y = Inr (\<not> (?lx = ?ly \<and> compare_bytes a b = 0))"
    using z by (auto simp: operator_ne_def eq')
  have tri: "\<exists>lt gt eq. operator_less p x y = Inr lt \<and> operator_less p y x = Inr gt \<and>
            operator_eq p x y = Inr eq \<and>
            ((lt \<and> \<not> gt \<and> \<not> eq) \<or> (\<not> lt \<and> gt \<and> \<not> eq) \<or> (\<not> lt \<and> \<not> gt \<and> eq)) \<and>
            operator_ne p x y = Inr (\<not> eq)"
  proof (cases "?lx = ?ly")
    case True
    show ?thesis
      unfolding lt gt eq ne using True sw[OF True] by (simp add: True) linarith
  next
    case False
    then have "unat ?lx \<noteq> unat ?ly" by (simp add: word_unat_eq_iff)
    then show ?thesis
      unfolding lt gt eq ne using False by (auto simp: neq_iff)
  qed
  have irr: "operator_less p x x = Inr False"
    using operator_less_compare[OF assms(1,1)] by (simp add: compare_bytes_eq_0[THEN iffD2])
  have xy: "operator_less p x y = Inr (unat ?lx < unat ?ly \<or> (?lx = ?ly \<and> (a, b) \<in> lexord {(u, v). u < v}))"
    using assms(1,2) by (rule operator_less_contents)
  have yz: "operator_less p y z = Inr (unat ?ly < unat (length_field z) \<or>
              (?ly = length_field z \<and> (b, c) \<in> lexord {(u, v). u < v}))"
    using assms(2,3) by (rule operator_less_contents)
  have xz: "operator_less p x z = Inr (unat ?lx < unat (length_field z) \<or>
              (?lx = length_field z \<and> (a, c) \<in> lexord {(u, v). u < v}))"
    using assms(1,3) by (rule operator_less_contents)
  have tr: "operator_less p x y = Inr True \<and> operator_less p y z = Inr True \<longrightarrow>
            operator_less p x z = Inr True"
    unfolding xy yz xz using less_pred_trans[of "unat ?lx" "unat ?ly" ?lx ?ly a b "unat (length_field z)" "length_field z" c]
    by auto
  from tri irr tr show ?thesis by blast
qed

text \<open>Three identifiers in increasing order.\<close>

theorem operator_less_strict_total_order_witness:
  "contents hybrid_platform long_00 = Some [0, 0, 0, 0, 0] \<and>
   contents hybrid_platform long_80 = Some [0, 128, 0, 0, 0] \<and>
   contents hybrid_platform heap_id = Some bytes_1_to_12 \<and>
   (\<exists>lt gt eq. operator_less hybrid_platform long_00 long_80 = Inr lt \<and>
      operator_less hybrid_platform long_80 long_00 = Inr gt \<and>
      operator_eq hybrid_platform long_00 long_80 = Inr eq \<and>
      ((lt \<and> \<not> gt \<and> \<not> eq) \<or> (\<not> lt \<and> gt \<and> \<not> eq) \<or> (\<not> lt \<and> \<not> gt \<and> eq)) \<and>
      operator_ne hybrid_platform long_00 long_80 = Inr (\<not> eq)) \<and>
   operator_less hybrid_platform long_00 long_00 = Inr False \<and>
   operator_less hybrid_platform long_00 long_80 = Inr True \<and>
   operator_less hybrid_platform long_80 heap_id = Inr True \<and>
   operator_less hybrid_platform long_00 heap_id = Inr True \<and>
   operator_less hybrid_platform long_80 long_00 = Inr False \<and>
   operator_eq hybrid_platform long_00 long_80 = Inr False \<and>
   operator_ne hybrid_platform long_00 long_80 = Inr True"
proof -
  have h1: "contents hybrid_platform long_00 = Some [0, 0, 0, 0, 0]" by code_simp
  have h2: "contents hybrid_platform long_80 = Some [0, 128, 0, 0, 0]" by code_simp
  have h3: "contents hybrid_platform heap_id = Some bytes_1_to_12" by code_simp
  have e1: "operator_less hybrid_platform long_00 long_80 = Inr True" by code_simp
  have e2: "operator_less hybrid_platform long_80 heap_id = Inr True" by code_simp
  have e3: "operator_less hybrid_platform long_80 long_00 = Inr False" by code_simp
  have e4: "operator_eq hybrid_platform long_00 long_80 = Inr False" by code_simp
  have e5: "operator_ne hybrid_platform long_00 long_80 = Inr True" by code_simp
  show ?thesis
    using operator_less_strict_total_order[OF h1 h2 h3] h1 h2 h3 e1 e2 e3 e4 e5
    by blast
qed

end
